theory Spec2Isabelle
  imports Main "HOL-Library.Word" "HOL-Library.Multiset" "HOL-Library.Sublist"
begin

section \<open>Go errors and formatting\<close>

text \<open>
  A Go \<open>error\<close> is a value with a message and, when it was built by \<open>fmt.Errorf\<close>
  with the verb \<open>%w\<close>, one wrapped cause. \<open>ErrorString m\<close> is what \<open>errors.New\<close> and
  \<open>fmt.Errorf\<close> without \<open>%w\<close> build; \<open>WrapError m e\<close> is what \<open>fmt.Errorf\<close> with
  \<open>%w\<close> builds: the message is the formatted text, the cause is kept for \<open>errors.Is\<close>.
\<close>

datatype error = ErrorString string | WrapError string error

fun Error :: "error \<Rightarrow> string" where
  "Error (ErrorString m) = m"
| "Error (WrapError m e) = m"

text \<open>\<open>fmt.Errorf("<msg>: %w", e)\<close>, the only shape of wrapping in the sources.\<close>

definition Errorf_w :: "string \<Rightarrow> error \<Rightarrow> error" where
  "Errorf_w msg e = WrapError (msg @ '': '' @ Error e) e"

fun chain :: "error \<Rightarrow> error list" where
  "chain (ErrorString m) = [ErrorString m]"
| "chain (WrapError m e) = WrapError m e # chain e"

definition errors_Is :: "error \<Rightarrow> error \<Rightarrow> bool" where
  "errors_Is e target = (target \<in> set (chain e))"

text \<open>The verb \<open>%d\<close> on an integer: decimal digits, with a minus sign when negative.\<close>

fun digits :: "nat \<Rightarrow> string" where
  "digits n = (if n < 10 then [''0123456789'' ! n]
               else digits (n div 10) @ [''0123456789'' ! (n mod 10)])"

declare digits.simps [simp del]

definition itoa :: "int \<Rightarrow> string" where
  "itoa i = (if i < 0 then CHR ''-'' # digits (nat (- i)) else digits (nat i))"

section \<open>Configuration from the environment (client.go)\<close>

text \<open>
  Go's \<open>int\<close> is a 64-bit two's-complement integer on the platforms pgx supports, a
  \<open>rune\<close> is an \<open>int32\<close>, \<open>time.Duration\<close> an \<open>int64\<close> of nanoseconds. They are
  words here, so that arithmetic wraps as it does in Go and comparisons are signed
  (\<open><s\<close>). The logger of the sources is a side channel and is left out throughout.
\<close>

type_synonym rune = "32 word"
type_synonym go_int = "64 word"

record Config =
  Host :: string
  Port :: go_int
  User :: string
  Password :: string
  DBName :: string
  SSLMode :: string
  Timeout :: "64 word"
  MaxConns :: "32 word"

text \<open>
  \<open>for _, ch := range s\<close> decodes the string into runes. For a byte below 128 the rune
  is the byte. A string with a byte from 128 on decodes there to a rune of at least 128
  (or to U+FFFD), and the loop below rejects every rune above \<open>'9'\<close> in the same way, so
  reading such a byte as the rune of its own value gives the same result of \<open>parseInt\<close>.
\<close>

definition rune_of :: "char \<Rightarrow> rune" where
  "rune_of c = of_nat (of_char c)"

fun parseInt_loop :: "string \<Rightarrow> go_int \<Rightarrow> string \<Rightarrow> error + go_int" where
  "parseInt_loop s n [] = Inr n"
| "parseInt_loop s n (c # cs) =
     (let ch = rune_of c - 48 in
      if 9 <s ch then Inl (ErrorString (''invalid number: '' @ s))
      else parseInt_loop s (n * 10 + scast ch) cs)"

definition parseInt :: "string \<Rightarrow> error + go_int" where
  "parseInt s = parseInt_loop s 0 s"

text \<open>The process environment, \<open>os.LookupEnv\<close>, is a map from names to values.\<close>

definition getEnvString :: "(string \<rightharpoonup> string) \<Rightarrow> string \<Rightarrow> string \<Rightarrow> string" where
  "getEnvString environ key fallback =
     (case environ key of Some v \<Rightarrow> v | None \<Rightarrow> fallback)"

definition getEnvInt :: "(string \<rightharpoonup> string) \<Rightarrow> string \<Rightarrow> go_int \<Rightarrow> go_int" where
  "getEnvInt environ key fallback =
     (case environ key of
        Some v \<Rightarrow> (case parseInt v of Inr intValue \<Rightarrow> intValue | Inl err \<Rightarrow> fallback)
      | None \<Rightarrow> fallback)"

definition Config_defaults :: "Config \<Rightarrow> Config" where
  "Config_defaults cfg =
     (let cfg1 = (if Port cfg = 0 then cfg\<lparr>Port := 5432\<rparr> else cfg);
          cfg2 = (if SSLMode cfg1 = [] then cfg1\<lparr>SSLMode := ''disable''\<rparr> else cfg1);
          cfg3 = (if Timeout cfg2 = 0 then cfg2\<lparr>Timeout := 5 * 1000000000\<rparr> else cfg2)
      in if MaxConns cfg3 = 0 then cfg3\<lparr>MaxConns := 10\<rparr> else cfg3)"

definition Config_FromEnv :: "(string \<rightharpoonup> string) \<Rightarrow> Config" where
  "Config_FromEnv environ =
     \<lparr>Host = getEnvString environ ''DB_HOST'' ''localhost'',
      Port = getEnvInt environ ''DB_PORT'' 5432,
      User = getEnvString environ ''DB_USER'' ''postgres'',
      Password = getEnvString environ ''DB_PASSWORD'' ''postgres'',
      DBName = getEnvString environ ''DB_NAME'' ''postgres'',
      SSLMode = getEnvString environ ''DB_SSLMODE'' ''disable'',
      Timeout = getEnvInt environ ''DB_TIMEOUT'' 30 * 1000000000,
      MaxConns = ucast (getEnvInt environ ''DB_MAX_CONNS'' 50)\<rparr>"

section \<open>The PostgreSQL side: statements, store and faults\<close>

text \<open>
  The driver (pgx) and the server are not part of the repository. What the sources rely
  on is modelled here: the statements they send, a store with a committed state and the
  view of the open transaction, and the failures the driver may report. The fixed SQL
  texts of the sources are constructors of \<open>stmt\<close>; SQL supplied by the caller (a
  migration body, a rollback statement, a batch entry) is \<open>UserSQL\<close>. The ledger is the
  table \<open>migrations\<close> with its \<open>UNIQUE\<close> version column; caller-supplied SQL is taken
  not to touch that table, its effect on the rest of the schema is recorded as the
  list of statements applied. The \<open>journal\<close> lists every statement sent, in order,
  whether it succeeded or not.
\<close>

datatype arg = IntArg int | StrArg string | TimeArg nat

datatype stmt =
    TxBegin
  | TxCommit
  | TxRollback
  | CreateLedger
  | SelectApplied
  | SelectLast
  | InsertLedger int string nat
  | DeleteLedger int
  | UserSQL string "arg list"

type_synonym ledger_row = "int \<times> string \<times> nat"

record db =
  ledger :: "ledger_row list"
  effects :: "(string \<times> arg list) list"

record pg =
  committed :: db
  working :: db
  journal :: "stmt list"
  stdout :: "string list"
  pool_closed :: bool

text \<open>
  A connection pool, as the client sees it: which calls fail, and with what error, in
  which state of the world. Every fault may depend on the whole state, the journal
  included, so a fault can be transient.
\<close>

record Pool =
  ping_fault :: "pg \<Rightarrow> error option"
  begin_fault :: "pg \<Rightarrow> error option"
  commit_fault :: "pg \<Rightarrow> error option"
  rollback_fault :: "pg \<Rightarrow> error option"
  stmt_fault :: "pg \<Rightarrow> stmt \<Rightarrow> error option"
  query_fault :: "pg \<Rightarrow> error option"
  scan_fault :: "pg \<Rightarrow> int \<times> nat \<Rightarrow> error option"
  rows_fault :: "pg \<Rightarrow> error option"
  clock :: "pg \<Rightarrow> nat"

definition ErrNoRows :: error where
  "ErrNoRows = ErrorString ''no rows in result set''"

definition ErrUniqueViolation :: error where
  "ErrUniqueViolation =
     ErrorString ''ERROR: duplicate key value violates unique constraint (SQLSTATE 23505)''"

fun apply_stmt :: "stmt \<Rightarrow> db \<Rightarrow> error + db" where
  "apply_stmt (InsertLedger v d t) x =
     (if v \<in> fst ` set (ledger x) then Inl ErrUniqueViolation
      else Inr (x\<lparr>ledger := ledger x @ [(v, d, t)]\<rparr>))"
| "apply_stmt (DeleteLedger v) x = Inr (x\<lparr>ledger := filter (\<lambda>r. fst r \<noteq> v) (ledger x)\<rparr>)"
| "apply_stmt (UserSQL q as) x = Inr (x\<lparr>effects := effects x @ [(q, as)]\<rparr>)"
| "apply_stmt st x = Inr x"

fun rows_of :: "stmt \<Rightarrow> db \<Rightarrow> (int \<times> nat) list" where
  "rows_of SelectApplied x = map (\<lambda>(v, d, t). (v, t)) (sort_key fst (ledger x))"
| "rows_of SelectLast x = take 1 (rev (map (\<lambda>(v, d, t). (v, t)) (sort_key fst (ledger x))))"
| "rows_of st x = []"

definition send :: "stmt \<Rightarrow> pg \<Rightarrow> pg" where
  "send st s = s\<lparr>journal := journal s @ [st]\<rparr>"

definition Pool_Ping :: "Pool \<Rightarrow> pg \<Rightarrow> error option \<times> pg" where
  "Pool_Ping p s = (ping_fault p s, s)"

definition Pool_Close :: "pg \<Rightarrow> pg" where
  "Pool_Close s = s\<lparr>pool_closed := True\<rparr>"

definition Pool_Begin :: "Pool \<Rightarrow> pg \<Rightarrow> error option \<times> pg" where
  "Pool_Begin p s =
     (case begin_fault p s of
        Some e \<Rightarrow> (Some e, send TxBegin s)
      | None \<Rightarrow> (None, (send TxBegin s)\<lparr>working := committed s\<rparr>))"

definition Tx_Exec :: "Pool \<Rightarrow> stmt \<Rightarrow> pg \<Rightarrow> error option \<times> pg" where
  "Tx_Exec p st s =
     (case stmt_fault p s st of
        Some e \<Rightarrow> (Some e, send st s)
      | None \<Rightarrow>
          (case apply_stmt st (working s) of
             Inl e \<Rightarrow> (Some e, send st s)
           | Inr x \<Rightarrow> (None, (send st s)\<lparr>working := x\<rparr>)))"

definition Tx_Commit :: "Pool \<Rightarrow> pg \<Rightarrow> error option \<times> pg" where
  "Tx_Commit p s =
     (case commit_fault p s of
        Some e \<Rightarrow> (Some e, send TxCommit s)
      | None \<Rightarrow> (None, (send TxCommit s)\<lparr>committed := working s\<rparr>))"

definition Tx_Rollback :: "Pool \<Rightarrow> pg \<Rightarrow> error option \<times> pg" where
  "Tx_Rollback p s =
     (case rollback_fault p s of
        Some e \<Rightarrow> (Some e, send TxRollback s)
      | None \<Rightarrow> (None, send TxRollback s))"

text \<open>A statement outside a transaction commits on its own.\<close>

definition Pool_Exec :: "Pool \<Rightarrow> stmt \<Rightarrow> pg \<Rightarrow> error option \<times> pg" where
  "Pool_Exec p st s =
     (case stmt_fault p s st of
        Some e \<Rightarrow> (Some e, send st s)
      | None \<Rightarrow>
          (case apply_stmt st (committed s) of
             Inl e \<Rightarrow> (Some e, send st s)
           | Inr x \<Rightarrow> (None, (send st s)\<lparr>committed := x\<rparr>)))"

text \<open>
  \<open>pgx.Row\<close>: the outcome of \<open>Scan\<close> on the single row of a query, \<open>ErrNoRows\<close> when
  the query ran and found none.
\<close>

definition Pool_QueryRow :: "Pool \<Rightarrow> stmt \<Rightarrow> pg \<Rightarrow> (error + int \<times> nat) \<times> pg" where
  "Pool_QueryRow p st s =
     ((case query_fault p s of
         Some e \<Rightarrow> Inl e
       | None \<Rightarrow> (case rows_of st (committed s) of [] \<Rightarrow> Inl ErrNoRows | r # rs \<Rightarrow> Inr r)),
      send st s)"

text \<open>
  \<open>pgx.Rows\<close>: what \<open>Scan\<close> gives on each row that \<open>Next\<close> reaches, and what \<open>Err\<close>
  reports once \<open>Next\<close> has returned false.
\<close>

record Rows =
  items :: "(error + int \<times> nat) list"
  final_err :: "error option"

definition Pool_Query :: "Pool \<Rightarrow> stmt \<Rightarrow> pg \<Rightarrow> (error + Rows) \<times> pg" where
  "Pool_Query p st s =
     ((case query_fault p s of
         Some e \<Rightarrow> Inl e
       | None \<Rightarrow>
           Inr \<lparr>items = map (\<lambda>r. case scan_fault p s r of Some e \<Rightarrow> Inl e | None \<Rightarrow> Inr r)
                          (rows_of st (committed s)),
                final_err = rows_fault p s\<rparr>),
      send st s)"

text \<open>
  A batch is sent as one pipeline and runs in an implicit transaction: the server runs
  the statements in order, and after the first failure it skips the rest; the results
  of the skipped statements report the same failure.
\<close>

fun batch_run :: "Pool \<Rightarrow> stmt list \<Rightarrow> pg \<Rightarrow> error option list \<times> pg" where
  "batch_run p [] s = ([], s)"
| "batch_run p (st # sts) s =
     (case Tx_Exec p st s of
        (Some e, s1) \<Rightarrow> (Some e # map (\<lambda>x. Some e) sts, s1)
      | (None, s1) \<Rightarrow> (case batch_run p sts s1 of (rs, s2) \<Rightarrow> (None # rs, s2)))"

definition Pool_SendBatch :: "Pool \<Rightarrow> stmt list \<Rightarrow> pg \<Rightarrow> error option list \<times> pg" where
  "Pool_SendBatch p batch s =
     (case batch_run p batch (s\<lparr>working := committed s\<rparr>) of
        (rs, s1) \<Rightarrow> (rs, if list_all (\<lambda>r. r = None) rs then s1\<lparr>committed := working s1\<rparr> else s1))"

section \<open>The client (client.go and the query methods)\<close>

text \<open>
  \<open>c.pool\<close> is a pointer, nil until \<open>Connect\<close> has succeeded. A method of
  \<open>*pgxpool.Pool\<close> called through a nil pointer dereferences it and the call panics
  (a nil pointer dereference at run time); \<open>Panic\<close> is that outcome, \<open>Return\<close> a
  normal return.
\<close>

datatype 'a outcome = Panic | Return 'a

record Client =
  pool :: "Pool option"
  cfg :: Config

definition NewClient :: "Config \<Rightarrow> Client" where
  "NewClient config = \<lparr>pool = None, cfg = Config_defaults config\<rparr>"

definition NewClientFromEnv :: "(string \<rightharpoonup> string) \<Rightarrow> Client" where
  "NewClientFromEnv environ = NewClient (Config_FromEnv environ)"

text \<open>
  What \<open>Connect\<close> meets: whether the connection string parses, and the pool that
  \<open>pgxpool.NewWithConfig\<close> creates (or its failure).
\<close>

record Dial =
  parse_error :: "Config \<Rightarrow> error option"
  new_pool :: "Config \<Rightarrow> error + Pool"

definition Connect :: "Dial \<Rightarrow> Client \<Rightarrow> pg \<Rightarrow> error option \<times> Client" where
  "Connect d c s =
     (case parse_error d (cfg c) of
        Some err \<Rightarrow> (Some (Errorf_w ''failed to parse connection string'' err), c)
      | None \<Rightarrow>
          (case new_pool d (cfg c) of
             Inl err \<Rightarrow> (Some (Errorf_w ''failed to create connection pool'' err), c)
           | Inr p \<Rightarrow>
               (case fst (Pool_Ping p s) of
                  Some err \<Rightarrow> (Some (Errorf_w ''failed to ping database'' err), c)
                | None \<Rightarrow> (None, c\<lparr>pool := Some p\<rparr>))))"

definition Close :: "Client \<Rightarrow> pg \<Rightarrow> pg outcome" where
  "Close c s = (case pool c of None \<Rightarrow> Return s | Some p \<Rightarrow> Return (Pool_Close s))"

definition Ping :: "Client \<Rightarrow> pg \<Rightarrow> (error option \<times> pg) outcome" where
  "Ping c s =
     (case pool c of
        None \<Rightarrow> Return (Some (ErrorString ''connection pool is not initialized''), s)
      | Some p \<Rightarrow> Return (Pool_Ping p s))"

definition QueryRow :: "Client \<Rightarrow> stmt \<Rightarrow> pg \<Rightarrow> ((error + int \<times> nat) \<times> pg) outcome" where
  "QueryRow c st s = (case pool c of None \<Rightarrow> Panic | Some p \<Rightarrow> Return (Pool_QueryRow p st s))"

definition QueryRows :: "Client \<Rightarrow> stmt \<Rightarrow> pg \<Rightarrow> ((error + Rows) \<times> pg) outcome" where
  "QueryRows c st s = (case pool c of None \<Rightarrow> Panic | Some p \<Rightarrow> Return (Pool_Query p st s))"

text \<open>The command tag that \<open>Exec\<close> returns beside the error is not modelled.\<close>

definition Exec :: "Client \<Rightarrow> stmt \<Rightarrow> pg \<Rightarrow> (error option \<times> pg) outcome" where
  "Exec c st s = (case pool c of None \<Rightarrow> Panic | Some p \<Rightarrow> Return (Pool_Exec p st s))"

subsection \<open>ExecBatch\<close>

text \<open>
  The first loop queues \<open>queries[i]\<close> with \<open>args[i]\<close>, or with no arguments when
  \<open>args\<close> is too short; the second pulls one result per queued statement.
\<close>

fun queue_from :: "nat \<Rightarrow> string list \<Rightarrow> arg list list \<Rightarrow> stmt list" where
  "queue_from i [] args = []"
| "queue_from i (query # queries) args =
     UserSQL query (if i < length args then args ! i else []) # queue_from (Suc i) queries args"

fun ExecBatch_loop :: "nat \<Rightarrow> error option list \<Rightarrow> error option" where
  "ExecBatch_loop i [] = None"
| "ExecBatch_loop i (r # rs) =
     (case r of
        Some err \<Rightarrow> Some (Errorf_w (''error in batch query '' @ itoa (int i)) err)
      | None \<Rightarrow> ExecBatch_loop (Suc i) rs)"

definition ExecBatch_conn :: "Pool \<Rightarrow> string list \<Rightarrow> arg list list \<Rightarrow> pg \<Rightarrow> error option \<times> pg" where
  "ExecBatch_conn p queries args s =
     (case Pool_SendBatch p (queue_from 0 queries args) s of
        (batchResults, s1) \<Rightarrow> (ExecBatch_loop 0 batchResults, s1))"

definition ExecBatch ::
  "Client \<Rightarrow> string list \<Rightarrow> arg list list \<Rightarrow> pg \<Rightarrow> (error option \<times> pg) outcome" where
  "ExecBatch c queries args s =
     (case pool c of None \<Rightarrow> Panic | Some p \<Rightarrow> Return (ExecBatch_conn p queries args s))"

subsection \<open>ExecTx\<close>

text \<open>
  The work function receives the transaction and returns an error or nil; whatever it
  does to the world is a function on the state. \<open>ExecTx_conn\<close> is the body of \<open>ExecTx\<close>
  for a pool that is not nil.
\<close>

definition ExecTx_conn :: "Pool \<Rightarrow> (pg \<Rightarrow> error option \<times> pg) \<Rightarrow> pg \<Rightarrow> error option \<times> pg" where
  "ExecTx_conn p fn s =
     (case Pool_Begin p s of
        (Some err, s1) \<Rightarrow> (Some (Errorf_w ''failed to begin transaction'' err), s1)
      | (None, s1) \<Rightarrow>
          (case fn s1 of
             (Some err, s2) \<Rightarrow>
               (case Tx_Rollback p s2 of
                  (Some rbErr, s3) \<Rightarrow>
                    (Some (ErrorString (''tx failed: '' @ Error err @ '', rollback failed: '' @ Error rbErr)), s3)
                | (None, s3) \<Rightarrow> (Some err, s3))
           | (None, s2) \<Rightarrow>
               (case Tx_Commit p s2 of
                  (Some err, s3) \<Rightarrow> (Some (Errorf_w ''failed to commit transaction'' err), s3)
                | (None, s3) \<Rightarrow> (None, s3))))"

definition ExecTx ::
  "Client \<Rightarrow> (pg \<Rightarrow> error option \<times> pg) \<Rightarrow> pg \<Rightarrow> (error option \<times> pg) outcome" where
  "ExecTx c fn s = (case pool c of None \<Rightarrow> Panic | Some p \<Rightarrow> Return (ExecTx_conn p fn s))"

section \<open>The migration manager\<close>

text \<open>
  The manager is modelled for a client that is connected: \<open>p\<close> is its pool, and
  \<open>m.client.Exec\<close>, \<open>QueryRows\<close>, \<open>QueryRow\<close> and \<open>ExecTx\<close> are the pool's calls of
  the section above.
\<close>

record Migration =
  Version :: int
  Description :: string
  SQL :: string
  Timestamp :: nat

definition InitMigrationTable :: "Pool \<Rightarrow> pg \<Rightarrow> error option \<times> pg" where
  "InitMigrationTable p s =
     (case Pool_Exec p CreateLedger s of
        (Some err, s1) \<Rightarrow> (Some (Errorf_w ''error creating migrations table'' err), s1)
      | (None, s1) \<Rightarrow> (None, s1))"

fun scan_rows :: "(error + int \<times> nat) list \<Rightarrow> (int \<rightharpoonup> nat) \<Rightarrow> error + (int \<rightharpoonup> nat)" where
  "scan_rows [] result = Inr result"
| "scan_rows (Inl err # rest) result = Inl (Errorf_w ''error scanning migration'' err)"
| "scan_rows (Inr (version, appliedAt) # rest) result = scan_rows rest (result(version \<mapsto> appliedAt))"

definition GetAppliedMigrations :: "Pool \<Rightarrow> pg \<Rightarrow> (error + (int \<rightharpoonup> nat)) \<times> pg" where
  "GetAppliedMigrations p s =
     (case Pool_Query p SelectApplied s of
        (Inl err, s1) \<Rightarrow> (Inl (Errorf_w ''error querying migrations'' err), s1)
      | (Inr rows, s1) \<Rightarrow>
          (case scan_rows (items rows) Map.empty of
             Inl err \<Rightarrow> (Inl err, s1)
           | Inr result \<Rightarrow>
               (case final_err rows of
                  Some err \<Rightarrow> (Inl (Errorf_w ''error iterating migrations'' err), s1)
                | None \<Rightarrow> (Inr result, s1))))"

definition ApplyMigration :: "Pool \<Rightarrow> Migration \<Rightarrow> pg \<Rightarrow> error option \<times> pg" where
  "ApplyMigration p migration s =
     ExecTx_conn p
       (\<lambda>tx. case Tx_Exec p (UserSQL (SQL migration) []) tx of
                (Some err, tx1) \<Rightarrow>
                  (Some (Errorf_w (''error applying migration '' @ itoa (Version migration)) err), tx1)
              | (None, tx1) \<Rightarrow>
                  (case Tx_Exec p (InsertLedger (Version migration) (Description migration)
                                     (clock p tx1)) tx1 of
                     (Some err, tx2) \<Rightarrow>
                       (Some (Errorf_w (''error registering migration '' @ itoa (Version migration)) err), tx2)
                   | (None, tx2) \<Rightarrow> (None, tx2)))
       s"

definition Printf :: "string \<Rightarrow> pg \<Rightarrow> pg" where
  "Printf line s = s\<lparr>stdout := stdout s @ [line]\<rparr>"

fun Migrate_loop :: "Pool \<Rightarrow> (int \<rightharpoonup> nat) \<Rightarrow> Migration list \<Rightarrow> pg \<Rightarrow> error option \<times> pg" where
  "Migrate_loop p applied [] s = (None, s)"
| "Migrate_loop p applied (migration # migrations) s =
     (if applied (Version migration) \<noteq> None then Migrate_loop p applied migrations s
      else
        (case ApplyMigration p migration s of
           (Some err, s1) \<Rightarrow> (Some err, s1)
         | (None, s1) \<Rightarrow>
             Migrate_loop p applied migrations
               (Printf (''Applied migration '' @ itoa (Version migration) @ '': '' @
                          Description migration @ [CHR 0x0A]) s1)))"

definition Migrate :: "Pool \<Rightarrow> Migration list \<Rightarrow> pg \<Rightarrow> error option \<times> pg" where
  "Migrate p migrations s =
     (case InitMigrationTable p s of
        (Some err, s1) \<Rightarrow> (Some err, s1)
      | (None, s1) \<Rightarrow>
          (case GetAppliedMigrations p s1 of
             (Inl err, s2) \<Rightarrow> (Some err, s2)
           | (Inr applied, s2) \<Rightarrow> Migrate_loop p applied migrations s2))"

definition RollbackLastMigration :: "Pool \<Rightarrow> (int \<rightharpoonup> string) \<Rightarrow> pg \<Rightarrow> error option \<times> pg" where
  "RollbackLastMigration p rollbacks s =
     (case Pool_QueryRow p SelectLast s of
        (Inl err, s1) \<Rightarrow> (Some (Errorf_w ''error getting last migration'' err), s1)
      | (Inr (lastVersion, lastAppliedAt), s1) \<Rightarrow>
          (case rollbacks lastVersion of
             None \<Rightarrow> (Some (ErrorString (''no rollback for migration '' @ itoa lastVersion)), s1)
           | Some rollbackSQL \<Rightarrow>
               ExecTx_conn p
                 (\<lambda>tx. case Tx_Exec p (UserSQL rollbackSQL []) tx of
                          (Some err, tx1) \<Rightarrow>
                            (Some (Errorf_w (''error applying rollback '' @ itoa lastVersion) err), tx1)
                        | (None, tx1) \<Rightarrow>
                            (case Tx_Exec p (DeleteLedger lastVersion) tx1 of
                               (Some err, tx2) \<Rightarrow>
                                 (Some (Errorf_w (''error deleting migration record '' @ itoa lastVersion) err), tx2)
                             | (None, tx2) \<Rightarrow> (None, tx2)))
                 s1))"

text \<open>The migration bodies and rollback statements among the statements sent.\<close>

fun executed_sql :: "stmt list \<Rightarrow> string list" where
  "executed_sql [] = []"
| "executed_sql (UserSQL q as # sts) = q # executed_sql sts"
| "executed_sql (st # sts) = executed_sql sts"

definition applied_versions :: "pg \<Rightarrow> int set" where
  "applied_versions s = fst ` set (ledger (committed s))"

definition pending :: "pg \<Rightarrow> Migration list \<Rightarrow> Migration list" where
  "pending s migrations = filter (\<lambda>m. Version m \<notin> applied_versions s) migrations"

section \<open>Loading migrations from a directory\<close>

text \<open>
  \<open>strconv.Atoi\<close> (standard library): an optional sign, then at least one decimal
  digit and nothing else, and a value that fits 64 bits.
\<close>

definition is_digit :: "char \<Rightarrow> bool" where
  "is_digit c = (48 \<le> (of_char c :: nat) \<and> (of_char c :: nat) \<le> 57)"

definition digits_value :: "string \<Rightarrow> nat" where
  "digits_value s = foldl (\<lambda>n c. n * 10 + (of_char c - 48)) 0 s"

definition Atoi :: "string \<Rightarrow> int option" where
  "Atoi s =
     (case s of
        [] \<Rightarrow> None
      | c # cs \<Rightarrow>
          (let body = (if c = CHR ''-'' \<or> c = CHR ''+'' then cs else s) in
           if body = [] \<or> \<not> list_all is_digit body then None
           else
             (let n = (if c = CHR ''-'' then - int (digits_value body) else int (digits_value body))
              in if n < - (2 ^ 63) \<or> 2 ^ 63 \<le> n then None else Some n)))"

definition HasSuffix :: "string \<Rightarrow> string \<Rightarrow> bool" where
  "HasSuffix s suf = suffix suf s"

definition TrimSuffix :: "string \<Rightarrow> string \<Rightarrow> string" where
  "TrimSuffix s suf = (if suffix suf s then take (length s - length suf) s else s)"

text \<open>\<open>strings.SplitN(s, sep, 2)\<close> for a separator of one character.\<close>

definition SplitN2 :: "string \<Rightarrow> char \<Rightarrow> string list" where
  "SplitN2 s sep =
     (if sep \<in> set s then [takeWhile (\<lambda>x. x \<noteq> sep) s, tl (dropWhile (\<lambda>x. x \<noteq> sep) s)]
      else [s])"

record DirEntry =
  Name :: string
  IsDir :: bool

text \<open>
  The file system: \<open>os.ReadDir\<close> of a path, \<open>os.ReadFile\<close> of an entry of that
  directory, and \<open>time.Now\<close> at the loading of the \<open>n\<close>-th migration.
\<close>

record FS =
  ReadDir :: "string \<Rightarrow> error + DirEntry list"
  ReadFile :: "string \<Rightarrow> string \<Rightarrow> error + string"
  Now :: "nat \<Rightarrow> nat"

definition keeps :: "DirEntry \<Rightarrow> bool" where
  "keeps entry =
     (\<not> IsDir entry \<and> HasSuffix (Name entry) ''.sql'' \<and>
      \<not> length (SplitN2 (Name entry) CHR ''_'') < 2 \<and>
      Atoi (SplitN2 (Name entry) CHR ''_'' ! 0) \<noteq> None)"

fun load_entries ::
  "FS \<Rightarrow> string \<Rightarrow> DirEntry list \<Rightarrow> Migration list \<Rightarrow> error + Migration list" where
  "load_entries fs path [] migrations = Inr migrations"
| "load_entries fs path (entry # entries) migrations =
     (if \<not> IsDir entry \<and> HasSuffix (Name entry) ''.sql'' then
        (let parts = SplitN2 (Name entry) CHR ''_'' in
         if length parts < 2 then load_entries fs path entries migrations
         else
           (case Atoi (parts ! 0) of
              None \<Rightarrow> load_entries fs path entries migrations
            | Some version \<Rightarrow>
                (case ReadFile fs path (Name entry) of
                   Inl err \<Rightarrow> Inl (Errorf_w (''error reading migration file '' @ Name entry) err)
                 | Inr content \<Rightarrow>
                     load_entries fs path entries
                       (migrations @
                        [\<lparr>Version = version, Description = TrimSuffix (Name entry) ''.sql'',
                          SQL = content, Timestamp = Now fs (length migrations)\<rparr>]))))
      else load_entries fs path entries migrations)"

text \<open>
  \<open>sort.Slice\<close> orders by version. It is not a stable sort, so the order among equal
  versions is not fixed by Go; the insertion sort \<open>sort_key\<close> stands for it, and
  nothing below depends on how equal versions are ordered.
\<close>

definition LoadMigrationsFromPath :: "FS \<Rightarrow> string \<Rightarrow> error + Migration list" where
  "LoadMigrationsFromPath fs migrationsPath =
     (case ReadDir fs migrationsPath of
        Inl err \<Rightarrow> Inl (Errorf_w ''error reading migrations directory'' err)
      | Inr entries \<Rightarrow>
          (case load_entries fs migrationsPath entries [] of
             Inl err \<Rightarrow> Inl err
           | Inr migrations \<Rightarrow> Inr (sort_key Version migrations)))"

section \<open>Concrete worlds for the examples\<close>

text \<open>A pool on which nothing fails, and an empty database.\<close>

definition quiet :: Pool where
  "quiet = \<lparr>ping_fault = (\<lambda>s. None), begin_fault = (\<lambda>s. None), commit_fault = (\<lambda>s. None),
            rollback_fault = (\<lambda>s. None), stmt_fault = (\<lambda>s st. None), query_fault = (\<lambda>s. None),
            scan_fault = (\<lambda>s r. None), rows_fault = (\<lambda>s. None),
            clock = (\<lambda>s. length (journal s))\<rparr>"

definition fresh :: pg where
  "fresh = \<lparr>committed = \<lparr>ledger = [], effects = []\<rparr>, working = \<lparr>ledger = [], effects = []\<rparr>,
            journal = [], stdout = [], pool_closed = False\<rparr>"

text \<open>A pool on which the statement \<open>BAD\<close> is rejected, one whose rollbacks fail, and
  one whose queries fail.\<close>

definition picky :: Pool where
  "picky = quiet\<lparr>stmt_fault :=
     (\<lambda>s st. if st = UserSQL ''BAD'' [] then Some (ErrorString ''syntax error'') else None)\<rparr>"

definition lossy :: Pool where
  "lossy = quiet\<lparr>rollback_fault := (\<lambda>s. Some (ErrorString ''conn lost''))\<rparr>"

definition down :: Pool where
  "down = quiet\<lparr>query_fault := (\<lambda>s. Some (ErrorString ''conn closed''))\<rparr>"

definition boom :: "pg \<Rightarrow> error option \<times> pg" where
  "boom tx = (Some (ErrorString ''boom''), tx)"

definition rollback_failing :: "error \<Rightarrow> Pool" where
  "rollback_failing e = quiet\<lparr>rollback_fault := (\<lambda>s. Some e)\<rparr>"

definition failing_work :: "error \<Rightarrow> pg \<Rightarrow> error option \<times> pg" where
  "failing_work e tx = (Some e, tx)"

text \<open>Four migrations in the naming of the README, one whose body is rejected, and a
  database on which versions 1 to 3 are applied.\<close>

definition m1 :: Migration where
  "m1 = \<lparr>Version = 1, Description = ''001_create_users'', SQL = ''CREATE TABLE users'',
          Timestamp = 0\<rparr>"

definition m2 :: Migration where
  "m2 = \<lparr>Version = 2, Description = ''002_add_status'', SQL = ''ALTER TABLE users'',
          Timestamp = 0\<rparr>"

definition m3 :: Migration where
  "m3 = \<lparr>Version = 3, Description = ''003_create_posts'', SQL = ''CREATE TABLE posts'',
          Timestamp = 0\<rparr>"

definition m4 :: Migration where
  "m4 = \<lparr>Version = 4, Description = ''004_add_index'', SQL = ''CREATE INDEX posts_idx'',
          Timestamp = 0\<rparr>"

definition mbad :: Migration where
  "mbad = \<lparr>Version = 1, Description = ''001_bad'', SQL = ''BAD'', Timestamp = 0\<rparr>"

definition applied123 :: pg where
  "applied123 = fresh\<lparr>committed :=
     \<lparr>ledger = [(1, ''001_create_users'', 10), (2, ''002_add_status'', 11),
                (3, ''003_create_posts'', 12)],
      effects = [(''CREATE TABLE users'', []), (''ALTER TABLE users'', []),
                 (''CREATE TABLE posts'', [])]\<rparr>\<rparr>"

text \<open>Three directories: the one of the scenario, one with a negative version, and
  one with entries of every kind, listed by name as \<open>os.ReadDir\<close> does.\<close>

definition example_dir :: FS where
  "example_dir =
     \<lparr>ReadDir = (\<lambda>path. Inr [\<lparr>Name = ''001_create_users.sql'', IsDir = False\<rparr>,
                              \<lparr>Name = ''002_add_status.sql'', IsDir = False\<rparr>,
                              \<lparr>Name = ''abc_bad.sql'', IsDir = False\<rparr>]),
      ReadFile = (\<lambda>path name. Inr (''-- '' @ name)),
      Now = (\<lambda>n. 100 + n)\<rparr>"

definition down_dir :: FS where
  "down_dir =
     \<lparr>ReadDir = (\<lambda>path. Inr [\<lparr>Name = ''-1_down.sql'', IsDir = False\<rparr>]),
      ReadFile = (\<lambda>path name. Inr ''DROP TABLE users''),
      Now = (\<lambda>n. 100 + n)\<rparr>"

definition mixed_dir :: FS where
  "mixed_dir =
     \<lparr>ReadDir = (\<lambda>path. Inr [\<lparr>Name = ''10_b.sql'', IsDir = False\<rparr>,
                              \<lparr>Name = ''3_dir.sql'', IsDir = True\<rparr>,
                              \<lparr>Name = ''9_a.sql'', IsDir = False\<rparr>,
                              \<lparr>Name = ''README.md'', IsDir = False\<rparr>,
                              \<lparr>Name = ''_x.sql'', IsDir = False\<rparr>,
                              \<lparr>Name = ''nosep.sql'', IsDir = False\<rparr>]),
      ReadFile = (\<lambda>path name. Inr name),
      Now = (\<lambda>n. n)\<rparr>"

section \<open>The environment parser\<close>

lemma parseInt_empty: "parseInt [] = Inr 0"
  by (simp add: parseInt_def)

lemma sint_byte_minus_48:
  assumes "n < 256"
  shows "sint ((of_nat n :: 32 word) - 48) = int n - 48"
proof -
  have "(of_nat n :: 32 word) - 48 = word_of_int (int n - 48)" by simp
  moreover have "sint (word_of_int (int n - 48) :: 32 word) = signed_take_bit 31 (int n - 48)"
    by (simp only: sint_sbintrunc') simp
  moreover have "signed_take_bit 31 (int n - 48) = int n - 48"
    using assms by (intro signed_take_bit_int_eq_self) auto
  ultimately show ?thesis by simp
qed

text \<open>The test \<open>ch > 9\<close> is a signed one: it rejects the bytes above \<open>'9'\<close> and lets
  every byte below \<open>'0'\<close> through.\<close>

lemma rune_test: "(9 <s rune_of c - 48) = (57 < (of_char c :: nat))"
  using sint_byte_minus_48 [of "of_char c"] by (simp add: word_sless_alt rune_of_def)

lemma parseInt_loop_rejects:
  "(\<exists>e. parseInt_loop s n cs = Inl e) = (\<exists>c\<in>set cs. 57 < (of_char c :: nat))"
  by (induction cs arbitrary: n) (auto simp: Let_def rune_test)

lemma parseInt_rejects: "(\<exists>e. parseInt s = Inl e) = (\<exists>c\<in>set s. 57 < (of_char c :: nat))"
  by (simp add: parseInt_def parseInt_loop_rejects)

lemma getEnvInt_empty_value: "environ key = Some [] \<Longrightarrow> getEnvInt environ key fallback = 0"
  by (simp add: getEnvInt_def parseInt_empty)

lemma NewClientFromEnv_empty_values:
  "cfg (NewClientFromEnv [''DB_PORT'' \<mapsto> [], ''DB_TIMEOUT'' \<mapsto> [], ''DB_MAX_CONNS'' \<mapsto> []]) =
     \<lparr>Host = ''localhost'', Port = 5432, User = ''postgres'', Password = ''postgres'',
      DBName = ''postgres'', SSLMode = ''disable'', Timeout = 5000000000, MaxConns = 10\<rparr>"
  by (simp add: NewClientFromEnv_def NewClient_def Config_FromEnv_def Config_defaults_def
      getEnvInt_def getEnvString_def parseInt_def Let_def)

text \<open>
  Claim C10. The parser is meant to accept decimal digits only and to make
  \<open>getEnvInt\<close> fall back on anything else. It does not: a sign, a space or any other
  byte below \<open>'0'\<close> is taken as a negative digit. With \<open>DB_PORT\<close> set to \<open>-1\<close> the
  port of the client is \<open>-29\<close>, not the fallback 5432; \<open>+5\<close> parses as \<open>-45\<close> and
  \<open> 7\<close> as \<open>-153\<close>.
\<close>

theorem parseInt_takes_sign_as_digit:
  "parseInt ''-1'' = Inr (- 29) \<and> parseInt ''+5'' = Inr (- 45) \<and> parseInt '' 7'' = Inr (- 153) \<and>
   getEnvInt [''DB_PORT'' \<mapsto> ''-1''] ''DB_PORT'' 5432 = - 29 \<and>
   Port (cfg (NewClientFromEnv [''DB_PORT'' \<mapsto> ''-1''])) = - 29"
  by (simp add: NewClientFromEnv_def NewClient_def Config_FromEnv_def Config_defaults_def
      getEnvInt_def getEnvString_def parseInt_def rune_of_def Let_def word_sless_alt)

section \<open>The client before Connect\<close>

lemma Connect_failure_keeps_pool: "fst (Connect d c s) \<noteq> None \<Longrightarrow> snd (Connect d c s) = c"
  by (auto simp: Connect_def split: option.splits sum.splits)

lemma Close_twice: "Close c s = Return s1 \<Longrightarrow> Close c s1 = Return s1"
  by (auto simp: Close_def Pool_Close_def split: option.splits)

text \<open>
  Claim C8. On a client that was never connected, \<open>Ping\<close> returns an error and
  \<open>Close\<close> does nothing, as claimed; but \<open>QueryRow\<close>, \<open>QueryRows\<close>, \<open>Exec\<close>,
  \<open>ExecBatch\<close> and \<open>ExecTx\<close> have no guard: they call the nil pool and panic.
\<close>

theorem unconnected_client_panics:
  "Ping (NewClient config) s =
     Return (Some (ErrorString ''connection pool is not initialized''), s) \<and>
   Close (NewClient config) s = Return s \<and>
   QueryRow (NewClient config) st s = Panic \<and>
   QueryRows (NewClient config) st s = Panic \<and>
   Exec (NewClient config) st s = Panic \<and>
   ExecBatch (NewClient config) queries args s = Panic \<and>
   ExecTx (NewClient config) fn s = Panic"
  by (simp add: NewClient_def Ping_def Close_def QueryRow_def QueryRows_def Exec_def
      ExecBatch_def ExecTx_def)

section \<open>ExecTx\<close>

lemma composite_differs:
  "ErrorString (''tx failed: '' @ Error err @ '', rollback failed: '' @ Error rbErr) \<noteq> err"
proof
  assume "ErrorString (''tx failed: '' @ Error err @ '', rollback failed: '' @ Error rbErr) = err"
  then have "Error err = ''tx failed: '' @ Error err @ '', rollback failed: '' @ Error rbErr"
    by (metis Error.simps(1))
  then have "length (Error err) =
      length (''tx failed: '' @ Error err @ '', rollback failed: '' @ Error rbErr)"
    by simp
  then show False by simp
qed

text \<open>
  Claim C2, as the code has it. When the transaction has begun and the work function
  returns the error \<open>err\<close>: if the rollback succeeds, \<open>ExecTx\<close> returns \<open>err\<close>
  itself; if the rollback fails with \<open>rbErr\<close>, it returns one new error whose message
  is exactly \<open>tx failed: <message of err>, rollback failed: <message of rbErr>\<close>, and
  which is not \<open>err\<close>. The new error is built with \<open>%v\<close>: it holds the two failures
  as text only.
\<close>

theorem ExecTx_work_failure:
  assumes "Pool_Begin p s = (None, s1)" and "fn s1 = (Some err, s2)"
  shows "case rollback_fault p s2 of
           None \<Rightarrow> fst (ExecTx_conn p fn s) = Some err
         | Some rbErr \<Rightarrow>
             fst (ExecTx_conn p fn s) =
               Some (ErrorString (''tx failed: '' @ Error err @ '', rollback failed: '' @ Error rbErr)) \<and>
             fst (ExecTx_conn p fn s) \<noteq> Some err"
  using assms composite_differs [of err]
  by (simp add: ExecTx_conn_def Tx_Rollback_def split: option.splits)

theorem ExecTx_work_failure_witness:
  "fst (ExecTx_conn quiet boom fresh) = Some (ErrorString ''boom'') \<and>
   fst (ExecTx_conn lossy boom fresh) =
     Some (ErrorString ''tx failed: boom, rollback failed: conn lost'')"
  using ExecTx_work_failure [of quiet fresh "snd (Pool_Begin quiet fresh)" boom
      "ErrorString ''boom''" "snd (Pool_Begin quiet fresh)"]
    ExecTx_work_failure [of lossy fresh "snd (Pool_Begin lossy fresh)" boom
      "ErrorString ''boom''" "snd (Pool_Begin lossy fresh)"]
  by (simp add: Pool_Begin_def boom_def quiet_def lossy_def)

text \<open>
  Claim C2 as stated asks that the returned error carry both failures distinguishably.
  It does not: two different pairs of work failure and rollback failure give the same
  error; a work failure whose rollback succeeded can be returned as the very error that
  another work failure with a failed rollback gives; and \<open>errors.Is\<close> finds neither
  cause in the composite.
\<close>

theorem ExecTx_composite_not_distinguishable:
  "fst (ExecTx_conn (rollback_failing (ErrorString ''c''))
          (failing_work (ErrorString ''a, rollback failed: b'')) fresh) =
     Some (ErrorString ''tx failed: a, rollback failed: b, rollback failed: c'') \<and>
   fst (ExecTx_conn (rollback_failing (ErrorString ''b, rollback failed: c''))
          (failing_work (ErrorString ''a'')) fresh) =
     Some (ErrorString ''tx failed: a, rollback failed: b, rollback failed: c'') \<and>
   fst (ExecTx_conn quiet (failing_work (ErrorString ''tx failed: a, rollback failed: b'')) fresh) =
     Some (ErrorString ''tx failed: a, rollback failed: b'') \<and>
   fst (ExecTx_conn (rollback_failing (ErrorString ''b'')) (failing_work (ErrorString ''a'')) fresh) =
     Some (ErrorString ''tx failed: a, rollback failed: b'') \<and>
   \<not> errors_Is (ErrorString ''tx failed: a, rollback failed: b'') (ErrorString ''a'') \<and>
   \<not> errors_Is (ErrorString ''tx failed: a, rollback failed: b'') (ErrorString ''b'')"
  by (simp add: ExecTx_conn_def Pool_Begin_def Tx_Rollback_def send_def rollback_failing_def
      failing_work_def quiet_def fresh_def errors_Is_def)

text \<open>
  Claim C3. After the statements the work function has sent, \<open>ExecTx\<close> sends exactly
  one more command: \<open>commit\<close> when the work function returned nil, \<open>rollback\<close> when
  it returned an error, never both and never none. When \<open>Begin\<close> fails, the work
  function is not called and nothing follows the failed \<open>begin\<close>.
\<close>

theorem ExecTx_one_of_rollback_commit:
  "journal (snd (ExecTx_conn p fn s)) =
     (case Pool_Begin p s of
        (Some e, s1) \<Rightarrow> journal s @ [TxBegin]
      | (None, s1) \<Rightarrow>
          (case fn s1 of (r, s2) \<Rightarrow> journal s2 @ [if r = None then TxCommit else TxRollback]))"
  by (auto simp: ExecTx_conn_def Pool_Begin_def Tx_Rollback_def Tx_Commit_def send_def
      split: option.splits prod.splits)

lemma ExecTx_journal_examples:
  "journal (snd (ExecTx_conn quiet boom fresh)) = [TxBegin, TxRollback] \<and>
   journal (snd (ExecTx_conn lossy boom fresh)) = [TxBegin, TxRollback] \<and>
   journal (snd (ExecTx_conn quiet (Tx_Exec quiet (UserSQL ''A'' [])) fresh)) =
     [TxBegin, UserSQL ''A'' [], TxCommit]"
  by (simp add: ExecTx_conn_def Pool_Begin_def Tx_Rollback_def Tx_Commit_def Tx_Exec_def send_def
      boom_def quiet_def lossy_def fresh_def)

section \<open>ExecBatch\<close>

lemma journal_Tx_Exec: "journal (snd (Tx_Exec p st s)) = journal s @ [st]"
  by (simp add: Tx_Exec_def send_def split: option.splits sum.splits)

lemma executed_sql_queue_from: "executed_sql (queue_from i queries args) = queries"
  by (induction queries arbitrary: i) auto

lemma length_queue_from: "length (queue_from i queries args) = length queries"
  by (induction queries arbitrary: i) auto

lemma batch_run_cases:
  "batch_run p sts s = (rs, s') \<Longrightarrow>
     (ExecBatch_loop k rs = None \<and> journal s' = journal s @ sts \<and> list_all (\<lambda>r. r = None) rs) \<or>
     (\<exists>i e. i < length sts \<and>
            ExecBatch_loop k rs = Some (Errorf_w (''error in batch query '' @ itoa (int (k + i))) e) \<and>
            journal s' = journal s @ take (Suc i) sts \<and>
            rs ! i = Some e \<and> (\<forall>j<i. rs ! j = None))"
proof (induction sts arbitrary: s k rs s')
  case Nil
  then show ?case by simp
next
  case (Cons st sts)
  obtain r s1 where tx: "Tx_Exec p st s = (r, s1)" by (cases "Tx_Exec p st s")
  then have j1: "journal s1 = journal s @ [st]"
    using journal_Tx_Exec [of p st s] by simp
  show ?case
  proof (cases r)
    case (Some e)
    with Cons.prems tx have "rs = Some e # map (\<lambda>x. Some e) sts" and "s' = s1" by auto
    with j1 have "0 < length (st # sts) \<and>
        ExecBatch_loop k rs = Some (Errorf_w (''error in batch query '' @ itoa (int (k + 0))) e) \<and>
        journal s' = journal s @ take (Suc 0) (st # sts) \<and> rs ! 0 = Some e \<and> (\<forall>j<0. rs ! j = None)"
      by simp
    then show ?thesis by blast
  next
    case None
    obtain rs2 s2 where br: "batch_run p sts s1 = (rs2, s2)" by (cases "batch_run p sts s1")
    with Cons.prems tx None have rs: "rs = None # rs2" and s': "s' = s2" by auto
    from Cons.IH [OF br, of "Suc k"] show ?thesis
    proof (elim disjE exE conjE)
      assume "ExecBatch_loop (Suc k) rs2 = None" "journal s2 = journal s1 @ sts"
        "list_all (\<lambda>r. r = None) rs2"
      with rs s' j1 show ?thesis by simp
    next
      fix i e
      assume a: "i < length sts"
        "ExecBatch_loop (Suc k) rs2 = Some (Errorf_w (''error in batch query '' @ itoa (int (Suc k + i))) e)"
        "journal s2 = journal s1 @ take (Suc i) sts" "rs2 ! i = Some e" "\<forall>j<i. rs2 ! j = None"
      have "\<forall>j<Suc i. rs ! j = None"
        using a(5) rs by (auto simp: nth_Cons split: nat.splits)
      with a rs s' j1 have "Suc i < length (st # sts) \<and>
        ExecBatch_loop k rs = Some (Errorf_w (''error in batch query '' @ itoa (int (k + Suc i))) e) \<and>
        journal s' = journal s @ take (Suc (Suc i)) (st # sts) \<and> rs ! Suc i = Some e \<and>
        (\<forall>j<Suc i. rs ! j = None)"
        by simp
      then show ?thesis by blast
    qed
  qed
qed

text \<open>
  Claim C9. The statements are queued in the order given. A batch of length 0
  returns nil. When \<open>ExecBatch\<close> returns nil, every statement of the batch was run, in
  order. When it returns an error, that error wraps the failure \<open>e\<close> of some statement
  under the message \<open>error in batch query i\<close>, where \<open>i\<close> counts from 0 and is the
  first statement whose result is a failure, and the statements run are those up to
  and including \<open>i\<close>: none after it.
\<close>

theorem ExecBatch_first_failure:
  "executed_sql (queue_from 0 queries args) = queries \<and>
   fst (ExecBatch_conn p [] args s) = None \<and>
   (case fst (ExecBatch_conn p queries args s) of
      None \<Rightarrow> journal (snd (ExecBatch_conn p queries args s)) = journal s @ queue_from 0 queries args
    | Some err \<Rightarrow>
        (\<exists>i e. i < length queries \<and>
           err = Errorf_w (''error in batch query '' @ itoa (int i)) e \<and>
           fst (Pool_SendBatch p (queue_from 0 queries args) s) ! i = Some e \<and>
           (\<forall>j<i. fst (Pool_SendBatch p (queue_from 0 queries args) s) ! j = None) \<and>
           journal (snd (ExecBatch_conn p queries args s)) =
             journal s @ take (Suc i) (queue_from 0 queries args)))"
proof -
  let ?batch = "queue_from 0 queries args"
  let ?s0 = "s\<lparr>working := committed s\<rparr>"
  obtain rs s' where br: "batch_run p ?batch ?s0 = (rs, s')" by (cases "batch_run p ?batch ?s0")
  have res: "fst (ExecBatch_conn p queries args s) = ExecBatch_loop 0 rs"
    using br by (simp add: ExecBatch_conn_def Pool_SendBatch_def)
  have jr: "journal (snd (ExecBatch_conn p queries args s)) = journal s'"
    using br by (simp add: ExecBatch_conn_def Pool_SendBatch_def)
  have sb: "fst (Pool_SendBatch p ?batch s) = rs"
    using br by (simp add: Pool_SendBatch_def)
  have empty: "fst (ExecBatch_conn p [] args s) = None"
    by (simp add: ExecBatch_conn_def Pool_SendBatch_def)
  have main: "case fst (ExecBatch_conn p queries args s) of
      None \<Rightarrow> journal (snd (ExecBatch_conn p queries args s)) = journal s @ ?batch
    | Some err \<Rightarrow>
        (\<exists>i e. i < length queries \<and>
           err = Errorf_w (''error in batch query '' @ itoa (int i)) e \<and>
           fst (Pool_SendBatch p ?batch s) ! i = Some e \<and>
           (\<forall>j<i. fst (Pool_SendBatch p ?batch s) ! j = None) \<and>
           journal (snd (ExecBatch_conn p queries args s)) = journal s @ take (Suc i) ?batch)"
  proof -
    from batch_run_cases [OF br, of 0] show ?thesis
    proof (elim disjE exE conjE)
      assume "ExecBatch_loop 0 rs = None" "journal s' = journal ?s0 @ ?batch"
      then show ?thesis by (simp add: res jr)
    next
      fix i e
      assume a: "i < length ?batch"
        "ExecBatch_loop 0 rs = Some (Errorf_w (''error in batch query '' @ itoa (int (0 + i))) e)"
        "journal s' = journal ?s0 @ take (Suc i) ?batch" "rs ! i = Some e" "\<forall>j<i. rs ! j = None"
      then have "i < length queries \<and>
           Errorf_w (''error in batch query '' @ itoa (int i)) e =
             Errorf_w (''error in batch query '' @ itoa (int i)) e \<and>
           fst (Pool_SendBatch p ?batch s) ! i = Some e \<and>
           (\<forall>j<i. fst (Pool_SendBatch p ?batch s) ! j = None) \<and>
           journal (snd (ExecBatch_conn p queries args s)) = journal s @ take (Suc i) ?batch"
        by (simp add: jr sb length_queue_from)
      then show ?thesis using a(2) by (simp only: res option.case add_0) blast
    qed
  qed
  show ?thesis using executed_sql_queue_from empty main by blast
qed

theorem ExecBatch_first_failure_witness:
  "fst (ExecBatch_conn picky [''A'', ''BAD'', ''C''] [] fresh) =
     Some (WrapError ''error in batch query 1: syntax error'' (ErrorString ''syntax error'')) \<and>
   journal (snd (ExecBatch_conn picky [''A'', ''BAD'', ''C''] [] fresh)) =
     [UserSQL ''A'' [], UserSQL ''BAD'' []] \<and>
   fst (ExecBatch_conn picky [] [] fresh) = None"
  using ExecBatch_first_failure [of "[''A'', ''BAD'', ''C'']" "[]" picky fresh]
  by (simp add: ExecBatch_conn_def Pool_SendBatch_def Tx_Exec_def send_def picky_def quiet_def
      fresh_def Errorf_w_def itoa_def digits.simps)

section \<open>The migration manager: applying\<close>

lemmas world_defs = quiet_def fresh_def picky_def lossy_def down_def m1_def m2_def m3_def m4_def
  mbad_def applied123_def

lemmas run_defs = Migrate_def InitMigrationTable_def GetAppliedMigrations_def ApplyMigration_def
  ExecTx_conn_def Pool_Exec_def Pool_Query_def Pool_Begin_def Tx_Exec_def Tx_Commit_def
  Tx_Rollback_def send_def Printf_def Errorf_w_def itoa_def digits.simps
  RollbackLastMigration_def Pool_QueryRow_def ErrNoRows_def

lemma executed_sql_append: "executed_sql (xs @ ys) = executed_sql xs @ executed_sql ys"
  by (induction xs rule: executed_sql.induct) auto

lemma ApplyMigration_executed:
  "executed_sql (journal (snd (ApplyMigration p m s))) =
     executed_sql (journal s) @ (if begin_fault p s = None then [SQL m] else [])"
  by (auto simp: ApplyMigration_def ExecTx_conn_def Pool_Begin_def Tx_Exec_def Tx_Commit_def
      Tx_Rollback_def send_def executed_sql_append split: option.splits sum.splits prod.splits)

lemma ApplyMigration_failure:
  "fst (ApplyMigration p m s) \<noteq> None \<Longrightarrow> committed (snd (ApplyMigration p m s)) = committed s"
  by (auto simp: ApplyMigration_def ExecTx_conn_def Pool_Begin_def Tx_Exec_def Tx_Commit_def
      Tx_Rollback_def send_def split: option.splits sum.splits prod.splits if_splits)

lemma ApplyMigration_success:
  "fst (ApplyMigration p m s) = None \<Longrightarrow>
     \<exists>t. committed (snd (ApplyMigration p m s)) =
       (committed s)\<lparr>effects := effects (committed s) @ [(SQL m, [])],
                     ledger := ledger (committed s) @ [(Version m, Description m, t)]\<rparr>"
  by (auto simp: ApplyMigration_def ExecTx_conn_def Pool_Begin_def Tx_Exec_def Tx_Commit_def
      Tx_Rollback_def send_def split: option.splits sum.splits prod.splits if_splits)

lemma Printf_fields [simp]:
  "journal (Printf l s) = journal s" "committed (Printf l s) = committed s"
  by (simp_all add: Printf_def)

lemma Migrate_loop_executed:
  "\<exists>k. executed_sql (journal (snd (Migrate_loop p applied ms s))) =
         executed_sql (journal s) @ map SQL (take k (filter (\<lambda>m. applied (Version m) = None) ms)) \<and>
       (fst (Migrate_loop p applied ms s) = None \<longrightarrow>
          k = length (filter (\<lambda>m. applied (Version m) = None) ms))"
proof (induction ms arbitrary: s)
  case Nil
  then show ?case by simp
next
  case (Cons m ms)
  let ?pend = "filter (\<lambda>m. applied (Version m) = None) ms"
  show ?case
  proof (cases "applied (Version m) = None")
    case False
    then obtain t where t: "applied (Version m) = Some t" by blast
    have "Migrate_loop p applied (m # ms) s = Migrate_loop p applied ms s"
      using t by simp
    moreover have "filter (\<lambda>m. applied (Version m) = None) (m # ms) = ?pend"
      using t by simp
    ultimately show ?thesis using Cons.IH [of s] by (simp only:)
  next
    case True
    obtain r s1 where am: "ApplyMigration p m s = (r, s1)" by (cases "ApplyMigration p m s")
    have ex: "executed_sql (journal s1) =
        executed_sql (journal s) @ (if begin_fault p s = None then [SQL m] else [])"
      using ApplyMigration_executed [of p m s] am by simp
    show ?thesis
    proof (cases r)
      case (Some e)
      define k :: nat where "k = (if begin_fault p s = None then 1 else 0)"
      have step: "Migrate_loop p applied (m # ms) s = (Some e, s1)"
        using True am Some by simp
      have f3: "filter (\<lambda>m. applied (Version m) = None) (m # ms) = m # ?pend"
        using True by simp
      have f1: "executed_sql (journal (snd (Migrate_loop p applied (m # ms) s))) =
          executed_sql (journal s) @ map SQL (take k (m # ?pend))"
        using ex by (simp only: step snd_conv) (simp add: k_def)
      have f2: "fst (Migrate_loop p applied (m # ms) s) \<noteq> None"
        by (simp only: step fst_conv) simp
      show ?thesis unfolding f3
      proof (intro exI [of _ k] conjI impI)
        show "executed_sql (journal (snd (Migrate_loop p applied (m # ms) s))) =
            executed_sql (journal s) @ map SQL (take k (m # ?pend))"
          by (rule f1)
      next
        assume "fst (Migrate_loop p applied (m # ms) s) = None"
        then show "k = length (m # ?pend)" by (rule notE [OF f2])
      qed
    next
      case None
      have bf: "begin_fault p s = None"
      proof (rule ccontr)
        assume "begin_fault p s \<noteq> None"
        then have "fst (ApplyMigration p m s) \<noteq> None"
          by (auto simp: ApplyMigration_def ExecTx_conn_def Pool_Begin_def)
        with am None show False by simp
      qed
      define s2 where
        "s2 = Printf (''Applied migration '' @ itoa (Version m) @ '': '' @ Description m @ [CHR 0x0A]) s1"
      have step: "Migrate_loop p applied (m # ms) s = Migrate_loop p applied ms s2"
        using True am None by (simp add: s2_def)
      have j2: "executed_sql (journal s2) = executed_sql (journal s) @ [SQL m]"
        using ex bf by (simp add: s2_def)
      from Cons.IH [of s2] obtain k where
        k1: "executed_sql (journal (snd (Migrate_loop p applied ms s2))) =
              executed_sql (journal s2) @ map SQL (take k ?pend)" and
        k2: "fst (Migrate_loop p applied ms s2) = None \<longrightarrow> k = length ?pend"
        by (elim exE conjE)
      have f1: "executed_sql (journal (snd (Migrate_loop p applied (m # ms) s))) =
          executed_sql (journal s) @ map SQL (take (Suc k) (m # ?pend))"
        using k1 j2 by (simp only: step) simp
      have f2: "fst (Migrate_loop p applied (m # ms) s) = None \<longrightarrow> Suc k = length (m # ?pend)"
        using k2 by (simp only: step) simp
      have f3: "filter (\<lambda>m. applied (Version m) = None) (m # ms) = m # ?pend"
        using True by simp
      show ?thesis unfolding f3
      proof (intro exI [of _ "Suc k"] conjI impI)
        show "executed_sql (journal (snd (Migrate_loop p applied (m # ms) s))) =
            executed_sql (journal s) @ map SQL (take (Suc k) (m # ?pend))"
          by (rule f1)
      next
        assume "fst (Migrate_loop p applied (m # ms) s) = None"
        then show "Suc k = length (m # ?pend)" by (rule mp [OF f2])
      qed
    qed
  qed
qed

lemma Migrate_loop_all_applied:
  "\<forall>m\<in>set ms. applied (Version m) \<noteq> None \<Longrightarrow> Migrate_loop p applied ms s = (None, s)"
proof (induction ms)
  case Nil
  then show ?case by simp
next
  case (Cons m ms)
  then obtain t where "applied (Version m) = Some t" by auto
  then have "Migrate_loop p applied (m # ms) s = Migrate_loop p applied ms s" by simp
  with Cons show ?case by simp
qed

lemma ApplyMigration_versions:
  "applied_versions s \<subseteq> applied_versions (snd (ApplyMigration p m s)) \<and>
   (fst (ApplyMigration p m s) = None \<longrightarrow> Version m \<in> applied_versions (snd (ApplyMigration p m s)))"
proof (cases "fst (ApplyMigration p m s)")
  case None
  from ApplyMigration_success [OF None] show ?thesis
    using None by (auto simp: applied_versions_def)
next
  case (Some e)
  then show ?thesis using ApplyMigration_failure [of p m s] by (simp add: applied_versions_def)
qed

lemma Migrate_loop_versions:
  "applied_versions s \<subseteq> applied_versions (snd (Migrate_loop p applied ms s)) \<and>
   (fst (Migrate_loop p applied ms s) = None \<longrightarrow>
      (\<forall>m\<in>set ms. applied (Version m) \<noteq> None \<or>
         Version m \<in> applied_versions (snd (Migrate_loop p applied ms s))))"
proof (induction ms arbitrary: s)
  case Nil
  then show ?case by simp
next
  case (Cons m ms)
  show ?case
  proof (cases "applied (Version m) = None")
    case False
    then obtain t where t: "applied (Version m) = Some t" by blast
    have "Migrate_loop p applied (m # ms) s = Migrate_loop p applied ms s"
      using t by simp
    then show ?thesis using Cons.IH [of s] t by simp
  next
    case True
    obtain r s1 where am: "ApplyMigration p m s = (r, s1)" by (cases "ApplyMigration p m s")
    show ?thesis
    proof (cases r)
      case (Some e)
      then show ?thesis using True am ApplyMigration_versions [of s p m] by simp
    next
      case None
      define s2 where
        "s2 = Printf (''Applied migration '' @ itoa (Version m) @ '': '' @ Description m @ [CHR 0x0A]) s1"
      have step: "Migrate_loop p applied (m # ms) s = Migrate_loop p applied ms s2"
        using True am None by (simp add: s2_def)
      have av: "applied_versions s2 = applied_versions s1" by (simp add: applied_versions_def s2_def)
      have "applied_versions s \<subseteq> applied_versions s1" "Version m \<in> applied_versions s1"
        using am None ApplyMigration_versions [of s p m] by auto
      then show ?thesis using Cons.IH [of s2] av by (simp only: step) auto
    qed
  qed
qed

lemma InitMigrationTable_fields:
  "committed (snd (InitMigrationTable p s)) = committed s"
  "executed_sql (journal (snd (InitMigrationTable p s))) = executed_sql (journal s)"
  by (auto simp: InitMigrationTable_def Pool_Exec_def send_def executed_sql_append
      split: option.splits sum.splits prod.splits)

lemma GetAppliedMigrations_fields:
  "committed (snd (GetAppliedMigrations p s)) = committed s"
  "executed_sql (journal (snd (GetAppliedMigrations p s))) = executed_sql (journal s)"
  by (auto simp: GetAppliedMigrations_def Pool_Query_def send_def executed_sql_append
      split: option.splits sum.splits prod.splits)

lemma scan_rows_map_dom:
  "scan_rows (map (\<lambda>r. case f r of Some e \<Rightarrow> Inl e | None \<Rightarrow> Inr r) rows) result = Inr res \<Longrightarrow>
     dom res = dom result \<union> fst ` set rows"
proof (induction rows arbitrary: result)
  case Nil
  then show ?case by simp
next
  case (Cons r rows)
  obtain v t where r: "r = (v, t)" by (cases r)
  show ?case
  proof (cases "f r")
    case None
    with Cons.prems r have "scan_rows (map (\<lambda>r. case f r of Some e \<Rightarrow> Inl e | None \<Rightarrow> Inr r) rows)
        (result(v \<mapsto> t)) = Inr res"
      by simp
    from Cons.IH [OF this] show ?thesis using r by auto
  next
    case (Some e)
    with Cons.prems show ?thesis by simp
  qed
qed

lemma fst_rows_of_SelectApplied: "fst ` set (rows_of SelectApplied x) = fst ` set (ledger x)"
proof -
  have "fst ` set (map (\<lambda>(v, d, t). (v, t)) ys) = fst ` set ys" for ys :: "ledger_row list"
    by (induction ys) auto
  from this [of "sort_key fst (ledger x)"] show ?thesis by simp
qed

lemma GetAppliedMigrations_dom:
  assumes "fst (GetAppliedMigrations p s) = Inr applied"
  shows "dom applied = applied_versions s"
proof -
  let ?rows = "rows_of SelectApplied (committed s)"
  from assms
  have "scan_rows (map (\<lambda>r. case scan_fault p s r of Some e \<Rightarrow> Inl e | None \<Rightarrow> Inr r) ?rows)
      Map.empty = Inr applied"
    by (auto simp: GetAppliedMigrations_def Pool_Query_def split: option.splits sum.splits)
  from scan_rows_map_dom [OF this] show ?thesis
    by (simp only: fst_rows_of_SelectApplied applied_versions_def) simp
qed

lemma applied_versions_committed: "committed s' = committed s \<Longrightarrow> applied_versions s' = applied_versions s"
  by (simp add: applied_versions_def)

lemma Migrate_unfold:
  "Migrate p ms s =
     (if fst (InitMigrationTable p s) \<noteq> None then (fst (InitMigrationTable p s), snd (InitMigrationTable p s))
      else case fst (GetAppliedMigrations p (snd (InitMigrationTable p s))) of
             Inl err \<Rightarrow> (Some err, snd (GetAppliedMigrations p (snd (InitMigrationTable p s))))
           | Inr applied \<Rightarrow>
               Migrate_loop p applied ms (snd (GetAppliedMigrations p (snd (InitMigrationTable p s)))))"
  by (auto simp: Migrate_def split: prod.splits option.splits sum.splits)

lemma Migrate_cases:
  obtains (stopped) "fst (Migrate p ms s) \<noteq> None"
      "executed_sql (journal (snd (Migrate p ms s))) = executed_sql (journal s)"
      "committed (snd (Migrate p ms s)) = committed s"
  | (looped) applied s2 where "Migrate p ms s = Migrate_loop p applied ms s2"
      "dom applied = applied_versions s" "committed s2 = committed s"
      "executed_sql (journal s2) = executed_sql (journal s)"
proof (cases "fst (InitMigrationTable p s)")
  case (Some e)
  then have "Migrate p ms s = (Some e, snd (InitMigrationTable p s))"
    by (simp add: Migrate_unfold)
  then show ?thesis using stopped InitMigrationTable_fields [of p s] by simp
next
  case None
  let ?s1 = "snd (InitMigrationTable p s)"
  let ?s2 = "snd (GetAppliedMigrations p ?s1)"
  have c2: "committed ?s2 = committed s"
    using InitMigrationTable_fields(1) [of p s] GetAppliedMigrations_fields(1) [of p ?s1] by simp
  have j2: "executed_sql (journal ?s2) = executed_sql (journal s)"
    using InitMigrationTable_fields(2) [of p s] GetAppliedMigrations_fields(2) [of p ?s1] by simp
  show ?thesis
  proof (cases "fst (GetAppliedMigrations p ?s1)")
    case (Inl err)
    then have "Migrate p ms s = (Some err, ?s2)"
      using None by (simp add: Migrate_unfold)
    then show ?thesis using stopped c2 j2 by simp
  next
    case (Inr applied)
    then have m: "Migrate p ms s = Migrate_loop p applied ms ?s2"
      using None by (simp add: Migrate_unfold)
    have "dom applied = applied_versions ?s1"
      by (rule GetAppliedMigrations_dom [OF Inr])
    then have "dom applied = applied_versions s"
      using applied_versions_committed [OF InitMigrationTable_fields(1) [of p s]] by simp
    then show ?thesis using looped m c2 j2 by blast
  qed
qed

lemma filter_dom_pending:
  "dom applied = applied_versions s \<Longrightarrow>
     filter (\<lambda>m. applied (Version m) = None) ms = pending s ms"
proof -
  assume d: "dom applied = applied_versions s"
  have "(applied v = None) = (v \<notin> applied_versions s)" for v
    using d by (metis domIff)
  then show ?thesis by (simp add: pending_def)
qed

lemma sorted_versions_take_pending:
  "sorted_wrt (<) (map Version ms) \<Longrightarrow> sorted_wrt (<) (map Version (take k (pending s ms)))"
  by (simp add: sorted_wrt_map pending_def sorted_wrt_filter sorted_wrt_take)

text \<open>
  Claim C1 as stated says that the pending migrations run in ascending version order
  whatever the order of the input list. They do not: \<open>Migrate\<close> walks the list as it
  is given and never sorts it. With the list \<open>[2, 1]\<close> on an empty ledger, version 2
  runs and is recorded before version 1.
\<close>

theorem Migrate_runs_unsorted_input_in_input_order:
  "executed_sql (journal (snd (Migrate quiet [m2, m1] fresh))) =
     [''ALTER TABLE users'', ''CREATE TABLE users''] \<and>
   map fst (ledger (committed (snd (Migrate quiet [m2, m1] fresh)))) = [2, 1] \<and>
   fst (Migrate quiet [m2, m1] fresh) = None"
  by (simp add: world_defs run_defs)

text \<open>
  Claim C1, as the code has it. The bodies that \<open>Migrate\<close> executes are those of the
  pending migrations (version absent from the ledger when \<open>Migrate\<close> starts), in the
  order of the input list: all of them when \<open>Migrate\<close> returns nil, a prefix of them
  when it stops at a failure. So they run in strictly ascending version order when the
  input list is in strictly ascending version order.
\<close>

theorem Migrate_executes_in_input_order:
  "\<exists>k. executed_sql (journal (snd (Migrate p migrations s))) =
          executed_sql (journal s) @ map SQL (take k (pending s migrations)) \<and>
       (fst (Migrate p migrations s) = None \<longrightarrow> k = length (pending s migrations)) \<and>
       (sorted_wrt (<) (map Version migrations) \<longrightarrow>
          sorted_wrt (<) (map Version (take k (pending s migrations))))"
proof (cases p migrations s rule: Migrate_cases)
  case stopped
  have "fst (Migrate p migrations s) = None \<longrightarrow> 0 = length (pending s migrations)"
    using stopped(1) by blast
  then have "executed_sql (journal (snd (Migrate p migrations s))) =
          executed_sql (journal s) @ map SQL (take 0 (pending s migrations)) \<and>
       (fst (Migrate p migrations s) = None \<longrightarrow> 0 = length (pending s migrations)) \<and>
       (sorted_wrt (<) (map Version migrations) \<longrightarrow>
          sorted_wrt (<) (map Version (take 0 (pending s migrations))))"
    using stopped(2) by simp
  then show ?thesis by (rule exI)
next
  case (looped applied s2)
  from Migrate_loop_executed [of p applied migrations s2] obtain k where
    k1: "executed_sql (journal (snd (Migrate_loop p applied migrations s2))) =
         executed_sql (journal s2) @ map SQL (take k (filter (\<lambda>m. applied (Version m) = None) migrations))" and
    k2: "fst (Migrate_loop p applied migrations s2) = None \<longrightarrow>
          k = length (filter (\<lambda>m. applied (Version m) = None) migrations)"
    by (elim exE conjE)
  have f: "filter (\<lambda>m. applied (Version m) = None) migrations = pending s migrations"
    by (rule filter_dom_pending [OF looped(2)])
  have "executed_sql (journal (snd (Migrate p migrations s))) =
          executed_sql (journal s) @ map SQL (take k (pending s migrations)) \<and>
       (fst (Migrate p migrations s) = None \<longrightarrow> k = length (pending s migrations)) \<and>
       (sorted_wrt (<) (map Version migrations) \<longrightarrow>
          sorted_wrt (<) (map Version (take k (pending s migrations))))"
    using k1 k2 sorted_versions_take_pending [of migrations k s]
    by (simp only: looped(1) looped(4) f) simp
  then show ?thesis by (rule exI)
qed

theorem Migrate_executes_in_input_order_witness:
  "fst (Migrate quiet [m1, m2] fresh) = None \<and>
   sorted_wrt (<) (map Version [m1, m2]) \<and>
   pending fresh [m1, m2] = [m1, m2] \<and>
   executed_sql (journal (snd (Migrate quiet [m1, m2] fresh))) = [SQL m1, SQL m2]"
  using Migrate_executes_in_input_order [of quiet "[m1, m2]" fresh]
  by (simp add: world_defs run_defs pending_def applied_versions_def)

lemma Migrate_success_covers:
  assumes "fst (Migrate p ms s) = None"
  shows "\<forall>m\<in>set ms. Version m \<in> applied_versions (snd (Migrate p ms s))"
proof (cases p ms s rule: Migrate_cases)
  case stopped
  with assms show ?thesis by simp
next
  case (looped applied s2)
  have sub: "applied_versions s2 \<subseteq> applied_versions (snd (Migrate_loop p applied ms s2))"
    using Migrate_loop_versions [of s2 p applied ms] by blast
  have cov: "\<forall>m\<in>set ms. applied (Version m) \<noteq> None \<or>
         Version m \<in> applied_versions (snd (Migrate_loop p applied ms s2))"
    using Migrate_loop_versions [of s2 p applied ms] assms looped(1) by simp
  have d: "dom applied = applied_versions s2"
    using looped(2) applied_versions_committed [OF looped(3)] by simp
  show ?thesis
  proof
    fix m assume "m \<in> set ms"
    with cov have "applied (Version m) \<noteq> None \<or>
         Version m \<in> applied_versions (snd (Migrate_loop p applied ms s2))" by blast
    then show "Version m \<in> applied_versions (snd (Migrate p ms s))"
      using d sub by (auto simp: looped(1) dom_def)
  qed
qed

lemma Migrate_noop:
  assumes "\<forall>m\<in>set ms. Version m \<in> applied_versions s"
  shows "executed_sql (journal (snd (Migrate p ms s))) = executed_sql (journal s) \<and>
         committed (snd (Migrate p ms s)) = committed s"
proof (cases p ms s rule: Migrate_cases)
  case stopped
  then show ?thesis by simp
next
  case (looped applied s2)
  have "\<forall>m\<in>set ms. applied (Version m) \<noteq> None"
    using assms looped(2) by (auto simp: dom_def)
  then have "Migrate_loop p applied ms s2 = (None, s2)"
    by (rule Migrate_loop_all_applied)
  then show ?thesis using looped by simp
qed

text \<open>
  Claim C4 as stated says that a second run of \<open>Migrate\<close> executes no migration
  body. That fails when the first run failed: the migration that failed is still
  pending, and the second run executes its body again.
\<close>

theorem Migrate_rerun_after_failure_executes_again:
  "fst (Migrate picky [mbad] fresh) \<noteq> None \<and>
   executed_sql (journal (snd (Migrate picky [mbad] fresh))) = [''BAD''] \<and>
   executed_sql (journal (snd (Migrate picky [mbad] (snd (Migrate picky [mbad] fresh))))) =
     [''BAD'', ''BAD'']"
  by (simp add: world_defs run_defs)

text \<open>
  Claim C4, as the code has it. When a run of \<open>Migrate\<close> returns nil, a second run
  with the same list on the resulting state, whatever faults the pool then has,
  executes no migration body and leaves the committed database, the ledger included,
  as the first run left it. The witness is the scenario of the claim: with versions 1
  to 3 applied and the list \<open>[1, 2, 3, 4]\<close>, only the body of version 4 is executed
  and recorded, after the three untouched rows, and a second run changes nothing.
\<close>

theorem Migrate_second_run_is_noop:
  assumes "fst (Migrate p migrations s) = None"
  shows "executed_sql (journal (snd (Migrate p' migrations (snd (Migrate p migrations s))))) =
           executed_sql (journal (snd (Migrate p migrations s))) \<and>
         committed (snd (Migrate p' migrations (snd (Migrate p migrations s)))) =
           committed (snd (Migrate p migrations s))"
  by (rule Migrate_noop [OF Migrate_success_covers [OF assms]])

theorem Migrate_second_run_is_noop_witness:
  "fst (Migrate quiet [m1, m2, m3, m4] applied123) = None \<and>
   executed_sql (journal (snd (Migrate quiet [m1, m2, m3, m4] applied123))) = [SQL m4] \<and>
   ledger (committed (snd (Migrate quiet [m1, m2, m3, m4] applied123))) =
     ledger (committed applied123) @ [(4, ''004_add_index'', 4)] \<and>
   executed_sql (journal (snd (Migrate quiet [m1, m2, m3, m4]
       (snd (Migrate quiet [m1, m2, m3, m4] applied123))))) = [SQL m4] \<and>
   committed (snd (Migrate quiet [m1, m2, m3, m4] (snd (Migrate quiet [m1, m2, m3, m4] applied123)))) =
     committed (snd (Migrate quiet [m1, m2, m3, m4] applied123))"
proof -
  have first: "fst (Migrate quiet [m1, m2, m3, m4] applied123) = None"
    by (simp add: world_defs run_defs)
  have ex: "executed_sql (journal (snd (Migrate quiet [m1, m2, m3, m4] applied123))) = [SQL m4]"
    by (simp add: world_defs run_defs)
  have led: "ledger (committed (snd (Migrate quiet [m1, m2, m3, m4] applied123))) =
     ledger (committed applied123) @ [(4, ''004_add_index'', 4)]"
    by (simp add: world_defs run_defs)
  from Migrate_second_run_is_noop [OF first, of quiet] ex led first show ?thesis
    by (simp only:)
qed

section \<open>The migration manager: rolling back\<close>

lemma sorted_last_Max: "sorted xs \<Longrightarrow> xs \<noteq> [] \<Longrightarrow> last xs = Max (set xs)"
  for xs :: "int list"
proof (induction xs)
  case Nil
  then show ?case by simp
next
  case (Cons x xs)
  show ?case
  proof (cases "xs = []")
    case True
    then show ?thesis by simp
  next
    case False
    with Cons have l: "last xs = Max (set xs)" by simp
    have "x \<le> Max (set xs)"
      using Cons.prems(1) False by (metis List.finite_set Max_ge last_in_set l sorted_simps(2))
    then have "Max (set (x # xs)) = Max (set xs)"
      using False by (simp add: max_def)
    with l False show ?thesis by simp
  qed
qed

lemma rows_of_SelectLast:
  assumes "ledger x \<noteq> []"
  shows "\<exists>t. rows_of SelectLast x = [(Max (fst ` set (ledger x)), t)]"
proof -
  let ?ys = "sort_key fst (ledger x)"
  have ne: "?ys \<noteq> []" using assms by (metis length_0_conv length_sort)
  have srt: "sorted (map fst ?ys)" by (rule sorted_sort_key)
  have "last (map fst ?ys) = Max (set (map fst ?ys))"
    using sorted_last_Max [OF srt] ne by simp
  then have m: "fst (last ?ys) = Max (fst ` set (ledger x))"
    using ne by (simp add: last_map)
  obtain v d t where l: "last ?ys = (v, d, t)" by (cases "last ?ys")
  have "?ys = butlast ?ys @ [last ?ys]" using ne by simp
  then have "rev ?ys = rev (butlast ?ys @ [last ?ys])" by (rule arg_cong)
  then have r: "rev ?ys = (v, d, t) # rev (butlast ?ys)" by (simp only: rev_append rev.simps append.simps l)
  have "rows_of SelectLast x = take 1 (map (\<lambda>(v, d, t). (v, t)) (rev ?ys))"
    by (simp add: rev_map)
  then have "rows_of SelectLast x = [(v, t)]"
    by (simp only: r) simp
  with m l show ?thesis by simp
qed

text \<open>
  Claim C6 as stated says that the failure on an empty ledger is a distinct
  \<open>no migrations applied\<close> condition, not a generic error. The code has no such
  condition: whatever \<open>Scan\<close> returns is wrapped as
  \<open>error getting last migration: ...\<close>. On an empty ledger that is the driver's
  \<open>no rows in result set\<close> when the lookup ran; when the lookup itself fails, the
  error on an empty ledger is the error on a ledger holding versions 1 to 3.
\<close>

theorem RollbackLastMigration_empty_ledger_error_is_generic:
  "fst (RollbackLastMigration quiet Map.empty fresh) =
     Some (WrapError ''error getting last migration: no rows in result set''
             (ErrorString ''no rows in result set'')) \<and>
   fst (RollbackLastMigration down Map.empty fresh) =
     Some (WrapError ''error getting last migration: conn closed'' (ErrorString ''conn closed'')) \<and>
   fst (RollbackLastMigration down Map.empty applied123) =
     Some (WrapError ''error getting last migration: conn closed'' (ErrorString ''conn closed''))"
  by (simp add: world_defs run_defs)

text \<open>
  Claim C6, as the code has it. On an empty ledger \<open>RollbackLastMigration\<close> fails; the
  only statement it sends is the lookup of the last version, so no transaction is
  begun, no rollback SQL is executed and the database is unchanged. The error is the
  lookup failure \<open>error getting last migration: <cause>\<close>, wrapping the driver's
  \<open>no rows in result set\<close> when the lookup ran, and the lookup's own failure
  otherwise.
\<close>

theorem RollbackLastMigration_empty_ledger:
  assumes "ledger (committed s) = []"
  shows "RollbackLastMigration p rollbacks s =
           (Some (Errorf_w ''error getting last migration''
                    (case query_fault p s of Some e \<Rightarrow> e | None \<Rightarrow> ErrNoRows)),
            send SelectLast s)"
  using assms by (simp add: RollbackLastMigration_def Pool_QueryRow_def split: option.splits)

theorem RollbackLastMigration_empty_ledger_witness:
  "ledger (committed fresh) = [] \<and>
   RollbackLastMigration quiet Map.empty fresh =
     (Some (WrapError ''error getting last migration: no rows in result set''
              (ErrorString ''no rows in result set'')),
      send SelectLast fresh)"
  using RollbackLastMigration_empty_ledger [of fresh quiet Map.empty]
  by (simp add: world_defs Errorf_w_def ErrNoRows_def)

lemma RollbackLastMigration_empty_ledger_wraps_ErrNoRows:
  assumes "ledger (committed s) = []" and "query_fault p s = None"
  shows "\<exists>e. fst (RollbackLastMigration p rollbacks s) = Some e \<and> errors_Is e ErrNoRows"
  using assms
  by (simp add: RollbackLastMigration_def Pool_QueryRow_def Errorf_w_def errors_Is_def ErrNoRows_def)

text \<open>
  Claim C7. When the lookup finds the highest applied version and the rollback mapping
  has no entry for it, \<open>RollbackLastMigration\<close> returns the error
  \<open>no rollback for migration <version>\<close> and the state is the one the lookup left:
  nothing is sent after the lookup (no transaction, no rollback SQL, no \<open>DELETE\<close>), and
  the ledger and the schema are unchanged.
\<close>

theorem RollbackLastMigration_no_rollback_registered:
  assumes "query_fault p s = None" and "ledger (committed s) \<noteq> []"
    and "rollbacks (Max (applied_versions s)) = None"
  shows "RollbackLastMigration p rollbacks s =
           (Some (ErrorString (''no rollback for migration '' @ itoa (Max (applied_versions s)))),
            send SelectLast s)"
proof -
  from rows_of_SelectLast [OF assms(2)] obtain t where
    "rows_of SelectLast (committed s) = [(Max (applied_versions s), t)]"
    by (auto simp: applied_versions_def)
  then show ?thesis using assms(1,3)
    by (simp add: RollbackLastMigration_def Pool_QueryRow_def)
qed

theorem RollbackLastMigration_no_rollback_registered_witness:
  "query_fault quiet applied123 = None \<and> ledger (committed applied123) \<noteq> [] \<and>
   Max (applied_versions applied123) = 3 \<and>
   [1 \<mapsto> ''DROP TABLE users''] (3 :: int) = None \<and>
   RollbackLastMigration quiet [1 \<mapsto> ''DROP TABLE users''] applied123 =
     (Some (ErrorString ''no rollback for migration 3''), send SelectLast applied123)"
proof -
  have mx: "Max (applied_versions applied123) = 3"
    by (simp add: applied_versions_def applied123_def fresh_def)
  have q: "query_fault quiet applied123 = None" by (simp add: quiet_def)
  have l: "ledger (committed applied123) \<noteq> []" by (simp add: applied123_def fresh_def)
  have r: "[1 \<mapsto> ''DROP TABLE users''] (Max (applied_versions applied123)) = None"
    by (simp add: mx)
  from RollbackLastMigration_no_rollback_registered
         [of quiet applied123 "[1 \<mapsto> ''DROP TABLE users'']", OF q l r] show ?thesis
    using q l mx by (simp add: itoa_def digits.simps)
qed

section \<open>Loading migrations\<close>

lemmas load_defs = LoadMigrationsFromPath_def HasSuffix_def TrimSuffix_def SplitN2_def Atoi_def
  is_digit_def digits_value_def suffix_to_prefix Let_def

lemma Atoi_examples: "Atoi ''001'' = Some 1 \<and> Atoi ''-1'' = Some (- 1) \<and> Atoi ''+7'' = Some 7 \<and>
   Atoi ''abc'' = None \<and> Atoi [] = None \<and> Atoi ''-'' = None \<and> Atoi ''1 2'' = None"
  by (simp add: load_defs)

lemma keeps_plain:
  "keeps e = (\<not> IsDir e \<and> suffix ''.sql'' (Name e) \<and> CHR ''_'' \<in> set (Name e) \<and>
              Atoi (takeWhile (\<lambda>c. c \<noteq> CHR ''_'') (Name e)) \<noteq> None)"
  by (simp add: keeps_def HasSuffix_def SplitN2_def)

lemma load_entries_result:
  "load_entries fs path entries acc = Inr ms \<Longrightarrow>
     map (\<lambda>m. (Some (Version m), Description m, Inr (SQL m))) ms =
       map (\<lambda>m. (Some (Version m), Description m, Inr (SQL m))) acc @
       map (\<lambda>e. (Atoi (SplitN2 (Name e) CHR ''_'' ! 0), TrimSuffix (Name e) ''.sql'',
                  ReadFile fs path (Name e))) (filter keeps entries)"
proof (induction entries arbitrary: acc)
  case Nil
  then show ?case by simp
next
  case (Cons entry entries)
  show ?case
  proof (cases "keeps entry")
    case False
    then have "load_entries fs path (entry # entries) acc = load_entries fs path entries acc"
      by (auto simp: keeps_def Let_def split: option.splits)
    with Cons.prems have "load_entries fs path entries acc = Inr ms" by simp
    from Cons.IH [OF this] False show ?thesis by simp
  next
    case True
    then obtain version where v: "Atoi (SplitN2 (Name entry) CHR ''_'' ! 0) = Some version"
      by (auto simp: keeps_def)
    show ?thesis
    proof (cases "ReadFile fs path (Name entry)")
      case (Inl err)
      then have "load_entries fs path (entry # entries) acc =
          Inl (Errorf_w (''error reading migration file '' @ Name entry) err)"
        using True v by (simp add: keeps_def Let_def)
      with Cons.prems show ?thesis by simp
    next
      case (Inr content)
      define m where "m = \<lparr>Version = version, Description = TrimSuffix (Name entry) ''.sql'',
          SQL = content, Timestamp = Now fs (length acc)\<rparr>"
      have "load_entries fs path (entry # entries) acc = load_entries fs path entries (acc @ [m])"
        using True v Inr by (simp add: keeps_def Let_def m_def)
      with Cons.prems have "load_entries fs path entries (acc @ [m]) = Inr ms" by simp
      from Cons.IH [OF this] True v Inr show ?thesis by (simp add: m_def)
    qed
  qed
qed

text \<open>Only a failing \<open>ReadDir\<close> or a kept file that cannot be read makes the load fail.\<close>

lemma load_entries_total:
  "\<forall>e\<in>set entries. keeps e \<longrightarrow> (\<exists>content. ReadFile fs path (Name e) = Inr content) \<Longrightarrow>
     \<exists>ms. load_entries fs path entries acc = Inr ms"
proof (induction entries arbitrary: acc)
  case Nil
  then show ?case by simp
next
  case (Cons entry entries)
  then have rest: "\<exists>ms. load_entries fs path entries acc' = Inr ms" for acc' by simp
  show ?case
  proof (cases "keeps entry")
    case False
    then have "load_entries fs path (entry # entries) acc = load_entries fs path entries acc"
      by (auto simp: keeps_def Let_def split: option.splits)
    with rest show ?thesis by simp
  next
    case True
    then obtain version where v: "Atoi (SplitN2 (Name entry) CHR ''_'' ! 0) = Some version"
      by (auto simp: keeps_def)
    from True Cons.prems obtain content where c: "ReadFile fs path (Name entry) = Inr content"
      by auto
    have "load_entries fs path (entry # entries) acc =
        load_entries fs path entries
          (acc @ [\<lparr>Version = version, Description = TrimSuffix (Name entry) ''.sql'',
                   SQL = content, Timestamp = Now fs (length acc)\<rparr>])"
      using True v c by (simp add: keeps_def Let_def)
    with rest show ?thesis by simp
  qed
qed

lemma LoadMigrationsFromPath_total:
  assumes "ReadDir fs path = Inr entries"
    and "\<forall>e\<in>set entries. keeps e \<longrightarrow> (\<exists>content. ReadFile fs path (Name e) = Inr content)"
  shows "\<exists>ms. LoadMigrationsFromPath fs path = Inr ms"
proof -
  from load_entries_total [OF assms(2), of "[]"] obtain ms0 where
    "load_entries fs path entries [] = Inr ms0" by blast
  then show ?thesis using assms(1) by (simp add: LoadMigrationsFromPath_def)
qed

lemma LoadMigrationsFromPath_mixed_dir:
  "map Version (projr (LoadMigrationsFromPath mixed_dir ''migrations'')) = [9, 10]"
  by (simp add: mixed_dir_def load_defs)

text \<open>
  Claim C5 as stated says that the leading token must parse as a non-negative integer
  and that other entries are skipped. The token is parsed by \<open>strconv.Atoi\<close>, which
  takes a sign: the entry \<open>-1_down.sql\<close> is kept, as a migration of version \<open>-1\<close>.
\<close>

theorem LoadMigrationsFromPath_keeps_negative_version:
  "LoadMigrationsFromPath down_dir ''migrations'' =
     Inr [\<lparr>Version = - 1, Description = ''-1_down'', SQL = ''DROP TABLE users'',
           Timestamp = 100\<rparr>]"
  by (simp add: down_dir_def load_defs)

text \<open>
  Claim C5, as the code has it. When \<open>LoadMigrationsFromPath\<close> returns a list, the
  list is sorted ascending by version and holds exactly one migration for each entry
  that is kept: an entry that is not a directory, whose name ends in \<open>.sql\<close>, has a
  \<open>_\<close>, and whose part before the first \<open>_\<close> is an integer for \<open>strconv.Atoi\<close>
  (an optional sign and decimal digits; negative versions included). The migration has
  that integer as version, the name without \<open>.sql\<close> as description and the content of
  the file as body. Every other entry is skipped without an error. The witness is the
  scenario of the claim: versions 1 and 2, in that order.
\<close>

theorem LoadMigrationsFromPath_keeps_and_sorts:
  assumes "ReadDir fs path = Inr entries" and "LoadMigrationsFromPath fs path = Inr ms"
  shows "sorted (map Version ms) \<and>
         mset (map (\<lambda>m. (Some (Version m), Description m, Inr (SQL m))) ms) =
         mset (map (\<lambda>e. (Atoi (SplitN2 (Name e) CHR ''_'' ! 0), TrimSuffix (Name e) ''.sql'',
                          ReadFile fs path (Name e))) (filter keeps entries))"
proof -
  from assms obtain ms0 where l: "load_entries fs path entries [] = Inr ms0"
    and ms: "ms = sort_key Version ms0"
    by (auto simp: LoadMigrationsFromPath_def split: sum.splits)
  have srt: "sorted (map Version ms)" unfolding ms by (rule sorted_sort_key)
  have "mset ms = mset ms0" unfolding ms by simp
  then have "mset (map (\<lambda>m. (Some (Version m), Description m, Inr (SQL m) :: error + string)) ms) =
      mset (map (\<lambda>m. (Some (Version m), Description m, Inr (SQL m))) ms0)"
    by (metis mset_map)
  with load_entries_result [OF l] srt show ?thesis by simp
qed

theorem LoadMigrationsFromPath_keeps_and_sorts_witness:
  "ReadDir example_dir ''migrations'' =
     Inr [\<lparr>Name = ''001_create_users.sql'', IsDir = False\<rparr>,
          \<lparr>Name = ''002_add_status.sql'', IsDir = False\<rparr>,
          \<lparr>Name = ''abc_bad.sql'', IsDir = False\<rparr>] \<and>
   map Version (projr (LoadMigrationsFromPath example_dir ''migrations'')) = [1, 2] \<and>
   LoadMigrationsFromPath example_dir ''migrations'' =
     Inr [\<lparr>Version = 1, Description = ''001_create_users'', SQL = ''-- 001_create_users.sql'', Timestamp = 100\<rparr>,
          \<lparr>Version = 2, Description = ''002_add_status'', SQL = ''-- 002_add_status.sql'', Timestamp = 101\<rparr>]"
proof -
  have rd: "ReadDir example_dir ''migrations'' =
     Inr [\<lparr>Name = ''001_create_users.sql'', IsDir = False\<rparr>,
          \<lparr>Name = ''002_add_status.sql'', IsDir = False\<rparr>,
          \<lparr>Name = ''abc_bad.sql'', IsDir = False\<rparr>]"
    by (simp add: example_dir_def)
  have ld: "LoadMigrationsFromPath example_dir ''migrations'' =
     Inr [\<lparr>Version = 1, Description = ''001_create_users'', SQL = ''-- 001_create_users.sql'', Timestamp = 100\<rparr>,
          \<lparr>Version = 2, Description = ''002_add_status'', SQL = ''-- 002_add_status.sql'', Timestamp = 101\<rparr>]"
    by (simp add: example_dir_def load_defs)
  from LoadMigrationsFromPath_keeps_and_sorts [OF rd ld] rd ld show ?thesis by simp
qed

end
